theory Spec2Isabelle
  imports Main
begin

section \<open>Values and errors\<close>

text \<open>
  Go's \<open>any\<close> holds either \<open>nil\<close> or a value of some dynamic type. The type of the
  values the collaborators store is a parameter \<open>'v\<close> of the model.
\<close>

datatype 'v any = nil | Val 'v

text \<open>
  Go's \<open>error\<close> values, as far as the core builds them:
  \<^item> \<open>Foreign x\<close>: an error value made outside the core (what a plugin returns); the core
    never looks inside it, so its payload is a parameter \<open>'e\<close>;
  \<^item> \<open>PipelineError i err\<close>: the struct \<open>&PipelineError{PluginIndex: i, Err: err}\<close>. The
    index comes from \<open>range\<close> over a slice, so it is never negative and is a \<open>nat\<close>;
  \<^item> \<open>Errorf format a\<close>: \<open>fmt.Errorf(format, a)\<close> with a string argument \<open>a\<close> (the
    verb \<open>%q\<close>). The value is kept as format and argument, its text is not rendered;
  \<^item> \<open>Errorf_w format err\<close>: \<open>fmt.Errorf(format, err)\<close> with the verb \<open>%w\<close>, which
    keeps \<open>err\<close> as the wrapped cause.
  A plugin may return any of them (a pipeline can itself be run inside a plugin).
\<close>

datatype 'e error =
    Foreign 'e
  | PipelineError (PluginIndex: nat) (Err: "'e error")
  | Errorf string string
  | Errorf_w string "'e error"

text \<open>
  \<open>Unwrap\<close> is \<open>errors.Unwrap\<close>: it calls the value's \<open>Unwrap\<close> method when there is
  one. \<open>PipelineError.Unwrap\<close> returns the field \<open>Err\<close>; the wrapper built by \<open>%w\<close>
  returns the wrapped error; the other values of the model have no such method.
\<close>

fun Unwrap :: "'e error \<Rightarrow> 'e error option" where
  "Unwrap (PipelineError i err) = Some err"
| "Unwrap (Errorf_w format err) = Some err"
| "Unwrap (Errorf format a) = None"
| "Unwrap (Foreign x) = None"

section \<open>Context\<close>

text \<open>
  The struct \<open>Context\<close>. A context is made by \<open>NewContext\<close>, so both maps exist; a Go
  map is its contents, a partial function from keys to values.
\<close>

record ('v, 'e) Context =
  Data :: "'v any"
  Metadata :: "string \<rightharpoonup> 'v any"
  Errors :: "'e error list"
  state :: "string \<rightharpoonup> 'v any"

definition NewContext :: "'v any \<Rightarrow> ('v, 'e) Context" where
  "NewContext data = \<lparr>Data = data, Metadata = Map.empty, Errors = [], state = Map.empty\<rparr>"

text \<open>
  Methods have pointer receivers and mutate in place. A method is modelled as a function
  from the receiver's contents before the call to its contents after the call; a method
  that also returns values gives the pair of the returned values and the receiver after
  the call. Go's two results \<open>(value, exists)\<close> are a pair; reading a key that is not in
  the map gives the zero value \<open>nil\<close> and \<open>false\<close>.
\<close>

definition Context_Set :: "('v, 'e) Context \<Rightarrow> string \<Rightarrow> 'v any \<Rightarrow> ('v, 'e) Context" where
  "Context_Set c key val = c\<lparr>Metadata := (Metadata c)(key \<mapsto> val)\<rparr>"

definition Context_Get ::
  "('v, 'e) Context \<Rightarrow> string \<Rightarrow> ('v any \<times> bool) \<times> ('v, 'e) Context" where
  "Context_Get c key =
     (case Metadata c key of
        None \<Rightarrow> ((nil, False), c)
      | Some val \<Rightarrow> ((val, True), c))"

definition SetData :: "('v, 'e) Context \<Rightarrow> 'v any \<Rightarrow> ('v, 'e) Context" where
  "SetData c data = c\<lparr>Data := data\<rparr>"

definition GetData :: "('v, 'e) Context \<Rightarrow> 'v any \<times> ('v, 'e) Context" where
  "GetData c = (Data c, c)"

definition SetState :: "('v, 'e) Context \<Rightarrow> string \<Rightarrow> 'v any \<Rightarrow> ('v, 'e) Context" where
  "SetState c key val = c\<lparr>state := (state c)(key \<mapsto> val)\<rparr>"

definition GetState ::
  "('v, 'e) Context \<Rightarrow> string \<Rightarrow> ('v any \<times> bool) \<times> ('v, 'e) Context" where
  "GetState c key =
     (case state c key of
        None \<Rightarrow> ((nil, False), c)
      | Some val \<Rightarrow> ((val, True), c))"

definition AddError :: "('v, 'e) Context \<Rightarrow> 'e error \<Rightarrow> ('v, 'e) Context" where
  "AddError c err = c\<lparr>Errors := Errors c @ [err]\<rparr>"

section \<open>Plugin and pipeline\<close>

text \<open>
  The interface \<open>Plugin\<close> has the one method \<open>Execute(ctx *Context) error\<close>. A plugin
  is what that call does: from the context it is handed, the error it returns (\<open>None\<close>
  is Go's \<open>nil\<close>) and the context as the call leaves it. It may change every field of
  the context, \<open>Errors\<close> included. A plugin is an implementation of the interface, not
  the \<open>nil\<close> interface value, and its call returns: a call that panics or runs forever
  has no result to speak of and is outside the model. A plugin of this type acts on the
  context only; plugins that also call \<open>Use\<close> on the pipeline that runs them have a
  section of their own below.
\<close>

type_synonym ('v, 'e) Plugin = "('v, 'e) Context \<Rightarrow> 'e error option \<times> ('v, 'e) Context"

text \<open>\<open>ErrorStrategy\<close> is a Go \<open>int\<close> with two named values (\<open>iota\<close>).\<close>

type_synonym ErrorStrategy = int

definition AbortOnError :: ErrorStrategy where
  "AbortOnError = 0"

definition ContinueOnError :: ErrorStrategy where
  "ContinueOnError = 1"

record ('v, 'e) Pipeline =
  plugins :: "('v, 'e) Plugin list"
  errorStrategy :: ErrorStrategy

definition NewPipeline :: "ErrorStrategy \<Rightarrow> ('v, 'e) Pipeline" where
  "NewPipeline strategy = \<lparr>plugins = [], errorStrategy = strategy\<rparr>"

definition Use :: "('v, 'e) Pipeline \<Rightarrow> ('v, 'e) Plugin \<Rightarrow> ('v, 'e) Pipeline" where
  "Use p plugin = p\<lparr>plugins := plugins p @ [plugin]\<rparr>"

text \<open>
  The loop of \<open>Execute\<close>. \<open>range p.plugins\<close> evaluates the slice once, before the first
  iteration: the loop walks that list (the second argument, with the index \<open>i\<close> of its
  head), while \<open>p.errorStrategy\<close> is read from the pipeline when a plugin has failed.
  The state of the loop is the pipeline and the context.
\<close>

fun Execute_range ::
  "nat \<Rightarrow> ('v, 'e) Plugin list \<Rightarrow> ('v, 'e) Pipeline \<Rightarrow> ('v, 'e) Context
     \<Rightarrow> 'e error option \<times> ('v, 'e) Pipeline \<times> ('v, 'e) Context" where
  "Execute_range i [] p ctx = (None, p, ctx)"
| "Execute_range i (plugin # rest) p ctx =
     (case plugin ctx of
        (None, ctx') \<Rightarrow> Execute_range (i + 1) rest p ctx'
      | (Some err, ctx') \<Rightarrow>
          if errorStrategy p = AbortOnError
          then (Some (PipelineError i err), p, ctx')
          else Execute_range (i + 1) rest p (AddError ctx' (PipelineError i err)))"

text \<open>
  \<open>Execute p ctx\<close> gives the returned error, the pipeline after the call and the
  context after the call.
\<close>

definition Execute ::
  "('v, 'e) Pipeline \<Rightarrow> ('v, 'e) Context
     \<Rightarrow> 'e error option \<times> ('v, 'e) Pipeline \<times> ('v, 'e) Context" where
  "Execute p ctx = Execute_range 0 (plugins p) p ctx"

text \<open>
  The method set of \<open>*Pipeline\<close> contains \<open>Execute(ctx *Context) error\<close>, so a pipeline
  satisfies the interface \<open>Plugin\<close> and can be handed to \<open>Use\<close> of another pipeline. As
  a plugin, a pipeline is its \<open>Execute\<close>.
\<close>

definition as_Plugin :: "('v, 'e) Pipeline \<Rightarrow> ('v, 'e) Plugin" where
  "as_Plugin p ctx = (case Execute p ctx of (err, p', ctx') \<Rightarrow> (err, ctx'))"

text \<open>
  The same loop with a ghost log of the calls it makes: at every call of
  \<open>plugin.Execute(ctx)\<close> the index of the plugin and the error it returned are
  recorded, in call order. The log is never read by the loop.
\<close>

fun record_call :: "nat \<times> 'e error option \<Rightarrow> 'r \<times> (nat \<times> 'e error option) list
     \<Rightarrow> 'r \<times> (nat \<times> 'e error option) list" where
  "record_call ev (res, calls) = (res, ev # calls)"

fun Execute_range_traced ::
  "nat \<Rightarrow> ('v, 'e) Plugin list \<Rightarrow> ('v, 'e) Pipeline \<Rightarrow> ('v, 'e) Context
     \<Rightarrow> ('e error option \<times> ('v, 'e) Pipeline \<times> ('v, 'e) Context)
        \<times> (nat \<times> 'e error option) list" where
  "Execute_range_traced i [] p ctx = ((None, p, ctx), [])"
| "Execute_range_traced i (plugin # rest) p ctx =
     (case plugin ctx of
        (None, ctx') \<Rightarrow> record_call (i, None) (Execute_range_traced (i + 1) rest p ctx')
      | (Some err, ctx') \<Rightarrow>
          record_call (i, Some err)
            (if errorStrategy p = AbortOnError
             then ((Some (PipelineError i err), p, ctx'), [])
             else Execute_range_traced (i + 1) rest p (AddError ctx' (PipelineError i err))))"

definition Execute_calls ::
  "('v, 'e) Pipeline \<Rightarrow> ('v, 'e) Context \<Rightarrow> (nat \<times> 'e error option) list" where
  "Execute_calls p ctx = snd (Execute_range_traced 0 (plugins p) p ctx)"

text \<open>
  Vocabulary of the statements. \<open>after_plugins ps ctx\<close> is the context that the plugins
  \<open>ps\<close> leave when they are called one after the other, each on the context its
  predecessor left, and nothing else touches the context. \<open>wrapped_failures\<close> wraps the
  failures of a log, in log order, with the index of the plugin that returned them, and
  \<open>failed_indices\<close> is the set of the indices that returned a failure.
\<close>

definition after_plugins :: "('v, 'e) Plugin list \<Rightarrow> ('v, 'e) Context \<Rightarrow> ('v, 'e) Context" where
  "after_plugins ps ctx = foldl (\<lambda>c plugin. snd (plugin c)) ctx ps"

fun wrapped_failures :: "(nat \<times> 'e error option) list \<Rightarrow> 'e error list" where
  "wrapped_failures [] = []"
| "wrapped_failures ((i, None) # calls) = wrapped_failures calls"
| "wrapped_failures ((i, Some err) # calls) = PipelineError i err # wrapped_failures calls"

definition failed_indices :: "(nat \<times> 'e error option) list \<Rightarrow> nat set" where
  "failed_indices calls = {i. \<exists>err. (i, Some err) \<in> set calls}"

section \<open>Registry\<close>

text \<open>
  The struct \<open>Registry\<close>: the map from names to plugins. The lock \<open>mu\<close> orders
  concurrent calls and holds no data; the model is of one call at a time. The field is
  \<open>Registry.plugins\<close> in the source.
\<close>

record ('v, 'e) Registry =
  Registry_plugins :: "string \<rightharpoonup> ('v, 'e) Plugin"

definition NewRegistry :: "('v, 'e) Registry" where
  "NewRegistry = \<lparr>Registry_plugins = Map.empty\<rparr>"

definition Register ::
  "('v, 'e) Registry \<Rightarrow> string \<Rightarrow> ('v, 'e) Plugin \<Rightarrow> 'e error option \<times> ('v, 'e) Registry" where
  "Register r name plugin =
     (case Registry_plugins r name of
        Some _ \<Rightarrow> (Some (Errorf ''plugin %q is already registered'' name), r)
      | None \<Rightarrow> (None, r\<lparr>Registry_plugins := (Registry_plugins r)(name \<mapsto> plugin)\<rparr>))"

text \<open>
  \<open>Get\<close> of the registry returns Go's pair \<open>(Plugin, error)\<close>: \<open>(nil, err)\<close> is
  \<open>(None, Some err)\<close> and \<open>(plugin, nil)\<close> is \<open>(Some plugin, None)\<close>.
\<close>

definition Registry_Get ::
  "('v, 'e) Registry \<Rightarrow> string
     \<Rightarrow> (('v, 'e) Plugin option \<times> 'e error option) \<times> ('v, 'e) Registry" where
  "Registry_Get r name =
     (case Registry_plugins r name of
        None \<Rightarrow> ((None, Some (Errorf ''plugin %q not found in registry'' name)), r)
      | Some plugin \<Rightarrow> ((Some plugin, None), r))"

text \<open>
  The loop of \<open>BuildPipeline\<close> over the names, with the registry and the pipeline under
  construction as its state. The result is Go's pair \<open>(*Pipeline, error)\<close>. The source
  tests \<open>err != nil\<close> only; \<open>Get\<close> returns a plugin whenever it returns no error, so
  the last case below is never taken and only completes the case analysis.
\<close>

fun BuildPipeline_range ::
  "string list \<Rightarrow> ('v, 'e) Registry \<Rightarrow> ('v, 'e) Pipeline
     \<Rightarrow> (('v, 'e) Pipeline option \<times> 'e error option) \<times> ('v, 'e) Registry" where
  "BuildPipeline_range [] r pipeline = ((Some pipeline, None), r)"
| "BuildPipeline_range (name # names) r pipeline =
     (case Registry_Get r name of
        ((_, Some err), r') \<Rightarrow> ((None, Some (Errorf_w ''failed to build pipeline: %w'' err)), r')
      | ((Some plugin, None), r') \<Rightarrow> BuildPipeline_range names r' (Use pipeline plugin)
      | ((None, None), r') \<Rightarrow> ((None, None), r'))"

definition BuildPipeline ::
  "('v, 'e) Registry \<Rightarrow> string list \<Rightarrow> ErrorStrategy
     \<Rightarrow> (('v, 'e) Pipeline option \<times> 'e error option) \<times> ('v, 'e) Registry" where
  "BuildPipeline r names strategy = BuildPipeline_range names r (NewPipeline strategy)"

section \<open>Plugins that call Use on the running pipeline\<close>

text \<open>
  A plugin is arbitrary code, and it may hold a pointer to the pipeline that runs it.
  The fields \<open>plugins\<close> and \<open>errorStrategy\<close> are unexported, so a plugin outside the
  package changes a pipeline only through the exported method \<open>Use\<close>, which appends.
  In this second model a plugin call gives, besides the returned error and the context
  as the call leaves it, the plugins it handed to \<open>Use\<close> of the running pipeline during
  the call, in call order. The names carry the suffix \<open>_u\<close>; the definitions are those
  of the section on the pipeline, with the \<open>Use\<close> calls of the plugin applied to the
  pipeline when the plugin returns. \<open>range p.plugins\<close> has copied the slice header
  before the first iteration, so the loop still walks the plugins that were there when
  \<open>Execute\<close> was called, while \<open>p.errorStrategy\<close> is read from the pipeline as it is.
\<close>

datatype ('v, 'e) Plugin_u =
  Plugin_u (run: "('v, 'e) Context \<Rightarrow> 'e error option \<times> ('v, 'e) Context \<times> ('v, 'e) Plugin_u list")

record ('v, 'e) Pipeline_u =
  plugins_u :: "('v, 'e) Plugin_u list"
  errorStrategy_u :: ErrorStrategy

definition NewPipeline_u :: "ErrorStrategy \<Rightarrow> ('v, 'e) Pipeline_u" where
  "NewPipeline_u strategy = \<lparr>plugins_u = [], errorStrategy_u = strategy\<rparr>"






section \<open>Example plugins\<close>

text \<open>
  Two plugins over a numeric payload, after the scenarios of the documentation:
  \<open>increment\<close> counts its own calls in \<open>Data\<close> and succeeds, \<open>boom\<close> always fails and
  leaves the context alone. The general theorems are instantiated with them.
\<close>

definition increment :: "(nat, string) Plugin" where
  "increment c = (None, SetData c (Val (case fst (GetData c) of nil \<Rightarrow> 1 | Val n \<Rightarrow> n + 1)))"

definition boom :: "(nat, string) Plugin" where
  "boom c = (Some (Foreign ''boom''), c)"


section \<open>The loop of Execute\<close>

lemma record_call_fst: "fst (record_call ev x) = fst x"
  by (cases x) simp

lemma traced_result:
  "fst (Execute_range_traced i ps p ctx) = Execute_range i ps p ctx"
  by (induction ps arbitrary: i ctx)
     (auto simp: record_call_fst split: prod.splits option.splits)

lemma after_plugins_Nil: "after_plugins [] ctx = ctx"
  by (simp add: after_plugins_def)

lemma after_plugins_Cons: "after_plugins (pl # ps) ctx = after_plugins ps (snd (pl ctx))"
  by (simp add: after_plugins_def)

lemma upt_shift: "map f [0..<Suc n] = f 0 # map (\<lambda>j. f (Suc j)) [0..<n]"
  by (simp only: upt_conv_Cons[of 0 "Suc n"] map_Suc_upt[symmetric] list.map map_map o_def)

lemma all_succeed_traced:
  "\<forall>j<length ps. fst ((ps ! j) (after_plugins (take j ps) ctx)) = None \<Longrightarrow>
   Execute_range_traced i ps p ctx =
     ((None, p, after_plugins ps ctx), map (\<lambda>j. (i + j, None)) [0..<length ps])"
proof (induction ps arbitrary: i ctx)
  case Nil
  show ?case by (simp add: after_plugins_Nil)
next
  case (Cons pl ps)
  have h0: "fst (pl ctx) = None"
    using Cons.prems[rule_format, of 0] by (simp add: after_plugins_Nil)
  have hs: "\<forall>j<length ps. fst ((ps ! j) (after_plugins (take j ps) (snd (pl ctx)))) = None"
  proof (intro allI impI)
    fix j assume "j < length ps"
    then show "fst ((ps ! j) (after_plugins (take j ps) (snd (pl ctx)))) = None"
      using Cons.prems[rule_format, of "Suc j"] by (simp add: after_plugins_Cons)
  qed
  obtain c' where pc: "pl ctx = (None, c')"
    using h0 by (cases "pl ctx") auto
  have ih: "Execute_range_traced (Suc i) ps p c' =
     ((None, p, after_plugins ps c'), map (\<lambda>j. (Suc i + j, None)) [0..<length ps])"
    using Cons.IH[of c' "Suc i"] hs pc by simp
  show ?case
    by (simp add: pc ih after_plugins_Cons upt_shift[of "\<lambda>j. (i + j, None)"] del: upt_Suc)
qed

lemma abort_at_traced:
  "errorStrategy p = AbortOnError \<Longrightarrow> k < length ps \<Longrightarrow>
   \<forall>j<k. fst ((ps ! j) (after_plugins (take j ps) ctx)) = None \<Longrightarrow>
   (ps ! k) (after_plugins (take k ps) ctx) = (Some err, ctx') \<Longrightarrow>
   Execute_range_traced i ps p ctx =
     ((Some (PipelineError (i + k) err), p, ctx'),
      map (\<lambda>j. (i + j, None)) [0..<k] @ [(i + k, Some err)])"
proof (induction ps arbitrary: i ctx k)
  case Nil
  then show ?case by simp
next
  case (Cons pl ps)
  show ?case
  proof (cases k)
    case 0
    then have "pl ctx = (Some err, ctx')"
      using Cons.prems(4) by (simp add: after_plugins_Nil)
    then show ?thesis
      using 0 Cons.prems(1) by simp
  next
    case (Suc k')
    have h0: "fst (pl ctx) = None"
      using Cons.prems(3)[rule_format, of 0] Suc by (simp add: after_plugins_Nil)
    then obtain c' where pc: "pl ctx = (None, c')"
      by (cases "pl ctx") auto
    have hs: "\<forall>j<k'. fst ((ps ! j) (after_plugins (take j ps) c')) = None"
    proof (intro allI impI)
      fix j assume "j < k'"
      then show "fst ((ps ! j) (after_plugins (take j ps) c')) = None"
        using Cons.prems(3)[rule_format, of "Suc j"] Suc pc by (simp add: after_plugins_Cons)
    qed
    have hk: "(ps ! k') (after_plugins (take k' ps) c') = (Some err, ctx')"
      using Cons.prems(4) Suc pc by (simp add: after_plugins_Cons)
    have lk: "k' < length ps"
      using Cons.prems(2) Suc by simp
    have ih: "Execute_range_traced (Suc i) ps p c' =
       ((Some (PipelineError (Suc i + k') err), p, ctx'),
        map (\<lambda>j. (Suc i + j, None)) [0..<k'] @ [(Suc i + k', Some err)])"
      using Cons.IH[OF Cons.prems(1) lk hs hk, of "Suc i"] .
    show ?thesis
      by (simp add: pc ih Suc upt_shift[of "\<lambda>j. (i + j, None)"] del: upt_Suc)
  qed
qed

lemma continue_traced:
  "errorStrategy p \<noteq> AbortOnError \<Longrightarrow>
   \<forall>pl\<in>set ps. \<forall>c. Errors (snd (pl c)) = Errors c \<Longrightarrow>
   \<exists>ctx' calls. Execute_range_traced i ps p ctx = ((None, p, ctx'), calls)
      \<and> map fst calls = [i..<i + length ps]
      \<and> Errors ctx' = Errors ctx @ wrapped_failures calls"
proof (induction ps arbitrary: i ctx)
  case Nil
  show ?case by simp
next
  case (Cons pl ps)
  have keep: "\<forall>c. Errors (snd (pl c)) = Errors c"
    using Cons.prems(2) by simp
  have rest: "\<forall>pl\<in>set ps. \<forall>c. Errors (snd (pl c)) = Errors c"
    using Cons.prems(2) by simp
  obtain r c1 where pc: "pl ctx = (r, c1)"
    by (cases "pl ctx")
  have e1: "Errors c1 = Errors ctx"
    using keep[rule_format, of ctx] pc by simp
  show ?case
  proof (cases r)
    case None
    obtain ctx' calls where
      ih: "Execute_range_traced (Suc i) ps p c1 = ((None, p, ctx'), calls)"
          "map fst calls = [Suc i..<Suc i + length ps]"
          "Errors ctx' = Errors c1 @ wrapped_failures calls"
      using Cons.IH[OF Cons.prems(1) rest, of "Suc i" c1] by blast
    show ?thesis
      using ih e1 by (simp add: pc None upt_conv_Cons del: upt_Suc)
  next
    case (Some err)
    obtain ctx' calls where
      ih: "Execute_range_traced (Suc i) ps p (AddError c1 (PipelineError i err)) = ((None, p, ctx'), calls)"
          "map fst calls = [Suc i..<Suc i + length ps]"
          "Errors ctx' = Errors (AddError c1 (PipelineError i err)) @ wrapped_failures calls"
      using Cons.IH[OF Cons.prems(1) rest, of "Suc i" "AddError c1 (PipelineError i err)"] by blast
    show ?thesis
      using ih e1 Cons.prems(1) by (simp add: pc Some AddError_def upt_conv_Cons del: upt_Suc)
  qed
qed

lemma Execute_traced:
  "Execute_range_traced 0 (plugins p) p ctx = (Execute p ctx, Execute_calls p ctx)"
  by (simp add: Execute_def Execute_calls_def traced_result[symmetric])

lemma abort_range_Errors:
  "errorStrategy p = AbortOnError \<Longrightarrow>
   \<forall>pl\<in>set ps. \<forall>c. Errors (snd (pl c)) = Errors c \<Longrightarrow>
   Errors (snd (snd (Execute_range i ps p ctx))) = Errors ctx"
proof (induction ps arbitrary: i ctx)
  case Nil
  show ?case by simp
next
  case (Cons pl ps)
  obtain r c1 where pc: "pl ctx = (r, c1)"
    by (cases "pl ctx")
  have e1: "Errors c1 = Errors ctx"
    using Cons.prems(2) pc by (metis list.set_intros(1) snd_conv)
  have rest: "\<forall>pl\<in>set ps. \<forall>c. Errors (snd (pl c)) = Errors c"
    using Cons.prems(2) by simp
  show ?case
    using Cons.IH[OF Cons.prems(1) rest, of "Suc i" c1] e1 Cons.prems(1)
    by (cases r) (simp_all add: pc)
qed

lemma wrapped_failures_index:
  "map PluginIndex (wrapped_failures calls) = map fst (filter (\<lambda>ev. snd ev \<noteq> None) calls)"
  by (induction calls rule: wrapped_failures.induct) simp_all

lemma wrapped_failures_Unwrap:
  "map Unwrap (wrapped_failures calls) = map Some (List.map_filter snd calls)"
  by (induction calls rule: wrapped_failures.induct) simp_all

lemma failed_indices_filter:
  "failed_indices calls = set (map fst (filter (\<lambda>ev. snd ev \<noteq> None) calls))"
  by (auto simp: failed_indices_def image_iff) force

lemma failed_indices_sorted_list:
  assumes "map fst calls = [i..<n]"
  shows "sorted_list_of_set (failed_indices calls) = map PluginIndex (wrapped_failures calls)"
    and "card (failed_indices calls) = length (wrapped_failures calls)"
proof -
  let ?xs = "map fst (filter (\<lambda>ev. snd ev \<noteq> None) calls)"
  have s: "sorted ?xs"
    by (rule sorted_filter) (simp add: assms)
  have d: "distinct ?xs"
    by (rule distinct_map_filter) (simp add: assms)
  show "sorted_list_of_set (failed_indices calls) = map PluginIndex (wrapped_failures calls)"
    using s d
    by (simp only: failed_indices_filter wrapped_failures_index
        sorted_list_of_set.idem_if_sorted_distinct)
  have "card (failed_indices calls) = length ?xs"
    using d by (simp only: failed_indices_filter distinct_card)
  also have "\<dots> = length (map PluginIndex (wrapped_failures calls))"
    by (simp only: wrapped_failures_index)
  finally show "card (failed_indices calls) = length (wrapped_failures calls)"
    by simp
qed

section \<open>Building pipelines from the registry\<close>

lemma Registry_Get_result:
  "fst (Registry_Get r name) \<noteq> (None, None)"
  by (simp add: Registry_Get_def split: option.splits)

lemma foldl_Use: "foldl Use q ps = q\<lparr>plugins := plugins q @ ps\<rparr>"
  by (induction ps arbitrary: q) (simp_all add: Use_def)

lemma foldl_Use_NewPipeline:
  "foldl Use (NewPipeline strategy) ps = \<lparr>plugins = ps, errorStrategy = strategy\<rparr>"
  by (simp add: foldl_Use NewPipeline_def)

lemma Registry_Get_unbound:
  "Registry_plugins r name = None \<Longrightarrow>
   Registry_Get r name = ((None, Some (Errorf ''plugin %q not found in registry'' name)), r)"
  by (simp add: Registry_Get_def)

lemma BuildPipeline_range_resolved:
  "\<forall>n\<in>set names. fst (Registry_Get r n) = (Some (f n), None) \<Longrightarrow>
   BuildPipeline_range names r pipeline = ((Some (foldl Use pipeline (map f names)), None), r)"
proof (induction names arbitrary: pipeline)
  case Nil
  show ?case by simp
next
  case (Cons name names)
  have "fst (Registry_Get r name) = (Some (f name), None)"
    using Cons.prems by simp
  moreover have "snd (Registry_Get r name) = r"
    by (simp add: Registry_Get_def split: option.splits)
  ultimately have g: "Registry_Get r name = ((Some (f name), None), r)"
    by (metis prod.collapse)
  show ?case
    using Cons.IH[of "Use pipeline (f name)"] Cons.prems by (simp add: g)
qed

lemma BuildPipeline_range_missing:
  "\<forall>n\<in>set pre. fst (Registry_Get r n) = (Some (f n), None) \<Longrightarrow>
   Registry_plugins r missing = None \<Longrightarrow>
   BuildPipeline_range (pre @ missing # post) r pipeline =
     ((None, Some (Errorf_w ''failed to build pipeline: %w''
                     (Errorf ''plugin %q not found in registry'' missing))), r)"
proof (induction pre arbitrary: pipeline)
  case Nil
  then show ?case by (simp add: Registry_Get_unbound)
next
  case (Cons name pre)
  have "fst (Registry_Get r name) = (Some (f name), None)"
    using Cons.prems by simp
  moreover have "snd (Registry_Get r name) = r"
    by (simp add: Registry_Get_def split: option.splits)
  ultimately have g: "Registry_Get r name = ((Some (f name), None), r)"
    by (metis prod.collapse)
  show ?case
    using Cons.IH[of "Use pipeline (f name)"] Cons.prems by (simp add: g)
qed

lemma BuildPipeline_range_result:
  "fst (BuildPipeline_range names r pipeline) \<noteq> (None, None)"
  by (induction names arbitrary: pipeline)
     (simp_all add: Registry_Get_def split: option.splits)

section \<open>Execute with plugins that call Use\<close>






section \<open>Theorems\<close>

text \<open>
  C1. Abort on the first failure. Let the pipeline have the strategy \<open>AbortOnError\<close>, let
  the plugins at the indices below \<open>k\<close> succeed, each on the context its predecessor
  left, and let the plugin at index \<open>k\<close> return the failure \<open>err\<close>, leaving the context
  \<open>ctx'\<close>. Then \<open>Execute\<close> returns a \<open>PipelineError\<close> whose \<open>PluginIndex\<close> is \<open>k\<close> and
  whose \<open>Unwrap\<close> is exactly \<open>err\<close>; the context is the one the failing plugin left;
  the calls made are those of the plugins \<open>0, \<dots>, k\<close>, once each and in this order, so
  no plugin at an index above \<open>k\<close> is called.
\<close>

theorem abort_on_first_failure:
  assumes "errorStrategy p = AbortOnError"
    and "k < length (plugins p)"
    and "\<forall>j<k. fst ((plugins p ! j) (after_plugins (take j (plugins p)) ctx)) = None"
    and "(plugins p ! k) (after_plugins (take k (plugins p)) ctx) = (Some err, ctx')"
  shows "\<exists>e. Execute p ctx = (Some e, p, ctx')
           \<and> e = PipelineError k err \<and> PluginIndex e = k \<and> Unwrap e = Some err
           \<and> Execute_calls p ctx = map (\<lambda>j. (j, None)) [0..<k] @ [(k, Some err)]
           \<and> (\<forall>j>k. j \<notin> fst ` set (Execute_calls p ctx))"
proof -
  have "Execute_range_traced 0 (plugins p) p ctx =
      ((Some (PipelineError (0 + k) err), p, ctx'),
       map (\<lambda>j. (0 + j, None)) [0..<k] @ [(0 + k, Some err)])"
    using assms by (rule abort_at_traced)
  then have r: "Execute p ctx = (Some (PipelineError k err), p, ctx')"
    and c: "Execute_calls p ctx = map (\<lambda>j. (j, None)) [0..<k] @ [(k, Some err)]"
    by (simp_all add: Execute_traced)
  have "fst ` set (Execute_calls p ctx) = {0..k}"
    unfolding c by (auto simp: image_iff)
  then have "\<forall>j>k. j \<notin> fst ` set (Execute_calls p ctx)"
    by simp
  with r c show ?thesis by simp
qed

theorem abort_on_first_failure_witness:
  "errorStrategy \<lparr>plugins = [increment, boom, increment], errorStrategy = AbortOnError\<rparr> = AbortOnError
   \<and> fst (increment (NewContext (Val 0))) = None
   \<and> boom (snd (increment (NewContext (Val 0)))) = (Some (Foreign ''boom''), NewContext (Val 1))
   \<and> Execute \<lparr>plugins = [increment, boom, increment], errorStrategy = AbortOnError\<rparr> (NewContext (Val 0))
     = (Some (PipelineError 1 (Foreign ''boom'')),
        \<lparr>plugins = [increment, boom, increment], errorStrategy = AbortOnError\<rparr>,
        NewContext (Val 1))
   \<and> Unwrap (PipelineError 1 (Foreign ''boom'' :: string error)) = Some (Foreign ''boom'')
   \<and> Execute_calls \<lparr>plugins = [increment, boom, increment], errorStrategy = AbortOnError\<rparr>
        (NewContext (Val 0)) = [(0, None), (1, Some (Foreign ''boom''))]"
proof -
  have h1: "errorStrategy \<lparr>plugins = [increment, boom, increment], errorStrategy = AbortOnError\<rparr>
      = AbortOnError"
    by simp
  have h2: "(1::nat) < length (plugins \<lparr>plugins = [increment, boom, increment], errorStrategy = AbortOnError\<rparr>)"
    by simp
  have i0: "fst (increment (NewContext (Val 0))) = None"
    by (simp add: increment_def)
  have h3: "\<forall>j<1. fst ((plugins \<lparr>plugins = [increment, boom, increment], errorStrategy = AbortOnError\<rparr> ! j)
      (after_plugins (take j (plugins \<lparr>plugins = [increment, boom, increment], errorStrategy = AbortOnError\<rparr>))
         (NewContext (Val 0)))) = None"
    using i0 by (simp add: after_plugins_def)
  have b1: "boom (snd (increment (NewContext (Val 0)))) = (Some (Foreign ''boom''), NewContext (Val 1))"
    by (simp add: increment_def boom_def SetData_def GetData_def NewContext_def)
  have h4: "(plugins \<lparr>plugins = [increment, boom, increment], errorStrategy = AbortOnError\<rparr> ! 1)
      (after_plugins (take 1 (plugins \<lparr>plugins = [increment, boom, increment], errorStrategy = AbortOnError\<rparr>))
         (NewContext (Val 0))) = (Some (Foreign ''boom''), NewContext (Val 1))"
    using b1 by (simp add: after_plugins_def)
  show ?thesis
    using abort_on_first_failure[OF h1 h2 h3 h4] i0 b1 by simp
qed

text \<open>
  C2. Continue on error. As stated, for every pipeline of plugins, the claim fails: a
  plugin is handed the context and may itself write its \<open>Errors\<close>. A pipeline is such
  a plugin. Take the pipeline whose one plugin is the pipeline of \<open>boom\<close>, both with
  \<open>ContinueOnError\<close>, on a context without errors: the inner pipeline absorbs the
  failure of \<open>boom\<close> and returns no error, so the one plugin of the outer pipeline
  succeeds and no plugin of it fails; yet the context ends with one wrapped entry.
\<close>

theorem continue_nested_pipeline_counterexample:
  "errorStrategy (Use (NewPipeline ContinueOnError)
       (as_Plugin (Use (NewPipeline ContinueOnError) boom))) = ContinueOnError
   \<and> Errors (NewContext nil :: (nat, string) Context) = []
   \<and> fst (Execute (Use (NewPipeline ContinueOnError)
       (as_Plugin (Use (NewPipeline ContinueOnError) boom))) (NewContext nil)) = None
   \<and> Execute_calls (Use (NewPipeline ContinueOnError)
       (as_Plugin (Use (NewPipeline ContinueOnError) boom))) (NewContext nil) = [(0, None)]
   \<and> failed_indices (Execute_calls (Use (NewPipeline ContinueOnError)
       (as_Plugin (Use (NewPipeline ContinueOnError) boom))) (NewContext nil)) = {}
   \<and> Errors (snd (snd (Execute (Use (NewPipeline ContinueOnError)
       (as_Plugin (Use (NewPipeline ContinueOnError) boom))) (NewContext nil))))
      = [PipelineError 0 (Foreign ''boom'')]
   \<and> length (Errors (snd (snd (Execute (Use (NewPipeline ContinueOnError)
       (as_Plugin (Use (NewPipeline ContinueOnError) boom))) (NewContext nil)))))
      \<noteq> card (failed_indices (Execute_calls (Use (NewPipeline ContinueOnError)
          (as_Plugin (Use (NewPipeline ContinueOnError) boom))) (NewContext nil)))"
  by (simp add: Execute_def Execute_calls_def as_Plugin_def Use_def NewPipeline_def boom_def
      AddError_def NewContext_def ContinueOnError_def AbortOnError_def failed_indices_def)

text \<open>
  C2, amended: provided no plugin itself changes the \<open>Errors\<close> of the context. Let the
  pipeline have the strategy \<open>ContinueOnError\<close>, let the context start with no errors
  and let every plugin leave \<open>Errors\<close> as it finds it. Then \<open>Execute\<close> returns no error;
  every plugin is called exactly once, in index order; the \<open>Errors\<close> of the context are
  exactly the failures the plugins returned, each wrapped with the index of its plugin,
  in call order. So their number is the number of the plugins that failed, their indices
  are the failed indices in ascending order, and each unwraps to the failure its plugin
  returned.
\<close>

theorem continue_collects_failures:
  assumes "errorStrategy p = ContinueOnError"
    and "Errors ctx = []"
    and "\<forall>pl\<in>set (plugins p). \<forall>c. Errors (snd (pl c)) = Errors c"
  shows "fst (Execute p ctx) = None
       \<and> map fst (Execute_calls p ctx) = [0..<length (plugins p)]
       \<and> Errors (snd (snd (Execute p ctx))) = wrapped_failures (Execute_calls p ctx)
       \<and> length (Errors (snd (snd (Execute p ctx)))) = card (failed_indices (Execute_calls p ctx))
       \<and> map PluginIndex (Errors (snd (snd (Execute p ctx))))
           = sorted_list_of_set (failed_indices (Execute_calls p ctx))
       \<and> map Unwrap (Errors (snd (snd (Execute p ctx))))
           = map Some (List.map_filter snd (Execute_calls p ctx))"
proof -
  have na: "errorStrategy p \<noteq> AbortOnError"
    using assms(1) by (simp add: ContinueOnError_def AbortOnError_def)
  obtain ctx' calls where
    t: "Execute_range_traced 0 (plugins p) p ctx = ((None, p, ctx'), calls)"
    and i: "map fst calls = [0..<0 + length (plugins p)]"
    and e: "Errors ctx' = Errors ctx @ wrapped_failures calls"
    using continue_traced[OF na assms(3), of 0 ctx] by blast
  have r: "Execute p ctx = (None, p, ctx')" and c: "Execute_calls p ctx = calls"
    using t by (simp_all add: Execute_traced)
  have e': "Errors ctx' = wrapped_failures calls"
    using e assms(2) by simp
  show ?thesis
    using i failed_indices_sorted_list[OF i]
    by (simp add: r c e' wrapped_failures_Unwrap)
qed

theorem continue_collects_failures_witness:
  "errorStrategy \<lparr>plugins = [boom, increment, boom], errorStrategy = ContinueOnError\<rparr> = ContinueOnError
   \<and> Errors (NewContext (Val 0) :: (nat, string) Context) = []
   \<and> Errors \<circ> snd \<circ> increment = Errors
   \<and> Errors \<circ> snd \<circ> boom = Errors
   \<and> fst (Execute \<lparr>plugins = [boom, increment, boom], errorStrategy = ContinueOnError\<rparr>
        (NewContext (Val 0))) = None
   \<and> Execute_calls \<lparr>plugins = [boom, increment, boom], errorStrategy = ContinueOnError\<rparr>
        (NewContext (Val 0))
     = [(0, Some (Foreign ''boom'')), (1, None), (2, Some (Foreign ''boom''))]
   \<and> Errors (snd (snd (Execute \<lparr>plugins = [boom, increment, boom], errorStrategy = ContinueOnError\<rparr>
        (NewContext (Val 0)))))
     = [PipelineError 0 (Foreign ''boom''), PipelineError 2 (Foreign ''boom'')]
   \<and> card (failed_indices (Execute_calls
        \<lparr>plugins = [boom, increment, boom], errorStrategy = ContinueOnError\<rparr> (NewContext (Val 0)))) = 2"
proof -
  have h1: "errorStrategy \<lparr>plugins = [boom, increment, boom], errorStrategy = ContinueOnError\<rparr>
      = ContinueOnError"
    by simp
  have h2: "Errors (NewContext (Val 0) :: (nat, string) Context) = []"
    by (simp add: NewContext_def)
  have ki: "Errors \<circ> snd \<circ> increment = Errors" and kb: "Errors \<circ> snd \<circ> boom = Errors"
    by (simp_all add: fun_eq_iff increment_def boom_def SetData_def)
  have h3: "\<forall>pl\<in>set (plugins \<lparr>plugins = [boom, increment, boom], errorStrategy = ContinueOnError\<rparr>).
      \<forall>c. Errors (snd (pl c)) = Errors c"
    using ki kb by (simp add: fun_eq_iff)
  have calls: "Execute_calls \<lparr>plugins = [boom, increment, boom], errorStrategy = ContinueOnError\<rparr>
        (NewContext (Val 0))
     = [(0, Some (Foreign ''boom'')), (1, None), (2, Some (Foreign ''boom''))]"
    by (simp add: Execute_calls_def increment_def boom_def ContinueOnError_def AbortOnError_def)
  have fi: "failed_indices [(0, Some (Foreign ''boom'' :: string error)), (Suc 0, None),
      (2, Some (Foreign ''boom''))] = {0, 2}"
    by (auto simp: failed_indices_def)
  show ?thesis
    using continue_collects_failures[OF h1 h2 h3] h2 ki kb
    by (simp add: calls fi)
qed

text \<open>
  C3. \<open>BuildPipeline\<close> resolves the names with \<open>Get\<close> in the given order. If every name
  resolves (name \<open>n\<close> to the plugin \<open>f n\<close>), it returns no error and the pipeline made by
  \<open>NewPipeline strategy\<close> and one \<open>Use\<close> per name, whose plugins are the resolved
  plugins in the order of the names and whose strategy is \<open>strategy\<close>. If the names
  before \<open>missing\<close> resolve and \<open>missing\<close> is unbound, then whatever names follow, it
  returns no pipeline and the error that wraps (\<open>%w\<close>) the not-found error \<open>Get\<close> returned
  for \<open>missing\<close>, which names the step that failed; unwrapping gives that error back.
\<close>

theorem build_pipeline_resolves_in_order:
  "((\<forall>n\<in>set names. fst (Registry_Get r n) = (Some (f n), None)) \<longrightarrow>
      BuildPipeline r names strategy
        = ((Some (foldl Use (NewPipeline strategy) (map f names)), None), r)
      \<and> foldl Use (NewPipeline strategy) (map f names)
        = \<lparr>plugins = map f names, errorStrategy = strategy\<rparr>)
   \<and> ((\<forall>n\<in>set pre. fst (Registry_Get r n) = (Some (f n), None))
        \<and> Registry_plugins r missing = None \<longrightarrow>
      BuildPipeline r (pre @ missing # post) strategy
        = ((None, Some (Errorf_w ''failed to build pipeline: %w''
                          (Errorf ''plugin %q not found in registry'' missing))), r)
      \<and> fst (Registry_Get r missing)
        = (None, Some (Errorf ''plugin %q not found in registry'' missing))
      \<and> Unwrap (Errorf_w ''failed to build pipeline: %w''
                  (Errorf ''plugin %q not found in registry'' missing))
        = snd (fst (Registry_Get r missing)))"
proof (intro conjI impI)
  assume "\<forall>n\<in>set names. fst (Registry_Get r n) = (Some (f n), None)"
  then show "BuildPipeline r names strategy
      = ((Some (foldl Use (NewPipeline strategy) (map f names)), None), r)"
    unfolding BuildPipeline_def by (rule BuildPipeline_range_resolved)
next
  show "foldl Use (NewPipeline strategy) (map f names)
      = \<lparr>plugins = map f names, errorStrategy = strategy\<rparr>"
    by (rule foldl_Use_NewPipeline)
next
  assume "(\<forall>n\<in>set pre. fst (Registry_Get r n) = (Some (f n), None))
      \<and> Registry_plugins r missing = None"
  then show "BuildPipeline r (pre @ missing # post) strategy
      = ((None, Some (Errorf_w ''failed to build pipeline: %w''
                        (Errorf ''plugin %q not found in registry'' missing))), r)"
    unfolding BuildPipeline_def
    using BuildPipeline_range_missing[of pre r f missing post "NewPipeline strategy"] by blast
next
  assume "(\<forall>n\<in>set pre. fst (Registry_Get r n) = (Some (f n), None))
      \<and> Registry_plugins r missing = None"
  then show "fst (Registry_Get r missing)
      = (None, Some (Errorf ''plugin %q not found in registry'' missing))"
    by (simp add: Registry_Get_unbound)
next
  assume "(\<forall>n\<in>set pre. fst (Registry_Get r n) = (Some (f n), None))
      \<and> Registry_plugins r missing = None"
  then show "Unwrap (Errorf_w ''failed to build pipeline: %w''
                  (Errorf ''plugin %q not found in registry'' missing))
      = snd (fst (Registry_Get r missing))"
    by (simp add: Registry_Get_unbound)
qed

theorem build_pipeline_resolves_in_order_witness:
  "fst (Registry_Get \<lparr>Registry_plugins = [''a'' \<mapsto> increment, ''b'' \<mapsto> boom]\<rparr> ''a'')
     = (Some increment, None)
   \<and> fst (Registry_Get \<lparr>Registry_plugins = [''a'' \<mapsto> increment, ''b'' \<mapsto> boom]\<rparr> ''b'')
     = (Some boom, None)
   \<and> Registry_plugins \<lparr>Registry_plugins = [''a'' \<mapsto> increment, ''b'' \<mapsto> boom]\<rparr> ''missing'' = None
   \<and> BuildPipeline \<lparr>Registry_plugins = [''a'' \<mapsto> increment, ''b'' \<mapsto> boom]\<rparr> [''b'', ''a'', ''b''] AbortOnError
     = ((Some \<lparr>plugins = [boom, increment, boom], errorStrategy = AbortOnError\<rparr>, None),
        \<lparr>Registry_plugins = [''a'' \<mapsto> increment, ''b'' \<mapsto> boom]\<rparr>)
   \<and> BuildPipeline \<lparr>Registry_plugins = [''a'' \<mapsto> increment, ''b'' \<mapsto> boom]\<rparr>
        [''a'', ''missing'', ''b''] AbortOnError
     = ((None, Some (Errorf_w ''failed to build pipeline: %w''
                       (Errorf ''plugin %q not found in registry'' ''missing''))),
        \<lparr>Registry_plugins = [''a'' \<mapsto> increment, ''b'' \<mapsto> boom]\<rparr>)"
proof -
  let ?r = "\<lparr>Registry_plugins = [''a'' \<mapsto> increment, ''b'' \<mapsto> boom]\<rparr>"
  let ?f = "\<lambda>n. if n = ''a'' then increment else boom"
  have a: "fst (Registry_Get ?r ''a'') = (Some increment, None)"
    and b: "fst (Registry_Get ?r ''b'') = (Some boom, None)"
    and m: "Registry_plugins ?r ''missing'' = None"
    by (simp_all add: Registry_Get_def)
  have h1: "\<forall>n\<in>set [''b'', ''a'', ''b'']. fst (Registry_Get ?r n) = (Some (?f n), None)"
    using a b by simp
  have h2: "(\<forall>n\<in>set [''a'']. fst (Registry_Get ?r n) = (Some (?f n), None))
      \<and> Registry_plugins ?r ''missing'' = None"
    using a m by simp
  show ?thesis
    using build_pipeline_resolves_in_order
      [of "[''b'', ''a'', ''b'']" ?r ?f AbortOnError "[''a'']" "''missing''" "[''b'']"]
      h1 h2 a b m
    by simp
qed

text \<open>
  C4. \<open>Register\<close> returns an error exactly when the name is already bound. When it is
  bound, to \<open>q\<close>, the error is the already-registered error for that name, the registry
  is unchanged and a following \<open>Get\<close> of the name still returns \<open>q\<close>. When it is
  unbound, \<open>Register\<close> returns no error, the registry has the new binding and a following
  \<open>Get\<close> returns the plugin just registered.
\<close>

theorem register_rejects_duplicate:
  "(fst (Register r name plugin) \<noteq> None \<longleftrightarrow> Registry_plugins r name \<noteq> None)
   \<and> (Registry_plugins r name = Some q \<longrightarrow>
        Register r name plugin = (Some (Errorf ''plugin %q is already registered'' name), r)
        \<and> fst (Registry_Get (snd (Register r name plugin)) name) = (Some q, None))
   \<and> (Registry_plugins r name = None \<longrightarrow>
        Register r name plugin
          = (None, r\<lparr>Registry_plugins := (Registry_plugins r)(name \<mapsto> plugin)\<rparr>)
        \<and> fst (Registry_Get (snd (Register r name plugin)) name) = (Some plugin, None))"
  by (simp add: Register_def Registry_Get_def split: option.splits)

theorem register_rejects_duplicate_witness:
  "Registry_plugins (NewRegistry :: (nat, string) Registry) ''x'' = None
   \<and> Register NewRegistry ''x'' increment = (None, \<lparr>Registry_plugins = [''x'' \<mapsto> increment]\<rparr>)
   \<and> Registry_plugins \<lparr>Registry_plugins = [''x'' \<mapsto> increment]\<rparr> ''x'' = Some increment
   \<and> Register \<lparr>Registry_plugins = [''x'' \<mapsto> increment]\<rparr> ''x'' boom
     = (Some (Errorf ''plugin %q is already registered'' ''x''),
        \<lparr>Registry_plugins = [''x'' \<mapsto> increment]\<rparr>)
   \<and> fst (Registry_Get (snd (Register \<lparr>Registry_plugins = [''x'' \<mapsto> increment]\<rparr> ''x'' boom)) ''x'')
     = (Some increment, None)"
proof -
  have u: "Registry_plugins (NewRegistry :: (nat, string) Registry) ''x'' = None"
    by (simp add: NewRegistry_def)
  have b: "Registry_plugins \<lparr>Registry_plugins = [''x'' \<mapsto> increment]\<rparr> ''x'' = Some increment"
    by simp
  have n: "(NewRegistry :: (nat, string) Registry)\<lparr>Registry_plugins :=
      (Registry_plugins NewRegistry)(''x'' \<mapsto> increment)\<rparr> = \<lparr>Registry_plugins = [''x'' \<mapsto> increment]\<rparr>"
    by (simp add: NewRegistry_def)
  show ?thesis
    using register_rejects_duplicate[of NewRegistry "''x''" increment increment]
      register_rejects_duplicate[of "\<lparr>Registry_plugins = [''x'' \<mapsto> increment]\<rparr>" "''x''" boom increment]
      u b n
    by (simp add: Registry_Get_def)
qed

text \<open>
  C5. Under \<open>AbortOnError\<close> the core never writes \<open>Errors\<close>: if every plugin of the
  pipeline leaves the \<open>Errors\<close> of the context as it finds it, the \<open>Errors\<close> after
  \<open>Execute\<close> are the \<open>Errors\<close> before it, whether or not a plugin fails.
\<close>

theorem abort_never_populates_errors:
  assumes "errorStrategy p = AbortOnError"
    and "\<forall>pl\<in>set (plugins p). \<forall>c. Errors (snd (pl c)) = Errors c"
  shows "Errors (snd (snd (Execute p ctx))) = Errors ctx"
  unfolding Execute_def using assms by (rule abort_range_Errors)

theorem abort_never_populates_errors_witness:
  "errorStrategy \<lparr>plugins = [increment, boom, increment], errorStrategy = AbortOnError\<rparr> = AbortOnError
   \<and> Errors \<circ> snd \<circ> increment = Errors
   \<and> Errors \<circ> snd \<circ> boom = Errors
   \<and> Errors (snd (snd (Execute \<lparr>plugins = [increment, boom, increment], errorStrategy = AbortOnError\<rparr>
       (AddError (NewContext nil) (Foreign ''old''))))) = [Foreign ''old'']"
proof -
  have h1: "errorStrategy \<lparr>plugins = [increment, boom, increment], errorStrategy = AbortOnError\<rparr>
      = AbortOnError"
    by simp
  have ki: "Errors \<circ> snd \<circ> increment = Errors" and kb: "Errors \<circ> snd \<circ> boom = Errors"
    by (simp_all add: fun_eq_iff increment_def boom_def SetData_def)
  have h2: "\<forall>pl\<in>set (plugins \<lparr>plugins = [increment, boom, increment], errorStrategy = AbortOnError\<rparr>).
      \<forall>c. Errors (snd (pl c)) = Errors c"
    using ki kb by (simp add: fun_eq_iff)
  show ?thesis
    using abort_never_populates_errors[OF h1 h2, of "AddError (NewContext nil) (Foreign ''old'')"] ki kb
    by (simp add: AddError_def NewContext_def)
qed

text \<open>
  C6. Let the pipeline be built by \<open>NewPipeline\<close> and one \<open>Use\<close> for each plugin of
  \<open>ps\<close>, in this order, and let every plugin succeed on the context its predecessor
  left. Then the plugins of the pipeline are \<open>ps\<close>, \<open>Execute\<close> returns no error, the
  context after the call is the one obtained by applying the plugins one after the other
  in the order of the \<open>Use\<close> calls, and the calls made are those of the plugins
  \<open>0, \<dots>, n - 1\<close>, once each and in this order.
\<close>

theorem all_succeed_in_append_order:
  assumes "p = foldl Use (NewPipeline strategy) ps"
    and "\<forall>j<length ps. fst ((ps ! j) (after_plugins (take j ps) ctx)) = None"
  shows "plugins p = ps
       \<and> Execute p ctx = (None, p, after_plugins ps ctx)
       \<and> Execute_calls p ctx = map (\<lambda>j. (j, None)) [0..<length ps]"
proof -
  have ps: "plugins p = ps"
    using assms(1) by (simp add: foldl_Use_NewPipeline)
  have "Execute_range_traced 0 ps p ctx =
      ((None, p, after_plugins ps ctx), map (\<lambda>j. (0 + j, None)) [0..<length ps])"
    using assms(2) by (rule all_succeed_traced)
  then show ?thesis
    using ps Execute_traced[of p ctx] by simp
qed

theorem all_succeed_in_append_order_witness:
  "fst (increment (NewContext nil)) = None
   \<and> fst (increment (snd (increment (NewContext nil)))) = None
   \<and> plugins (Use (Use (NewPipeline ContinueOnError) increment) increment) = [increment, increment]
   \<and> Execute (Use (Use (NewPipeline ContinueOnError) increment) increment) (NewContext nil)
       = (None, Use (Use (NewPipeline ContinueOnError) increment) increment, NewContext (Val 2))
   \<and> Execute_calls (Use (Use (NewPipeline ContinueOnError) increment) increment) (NewContext nil)
       = [(0, None), (1, None)]"
proof -
  have h1: "Use (Use (NewPipeline ContinueOnError) increment) increment
      = foldl Use (NewPipeline ContinueOnError) [increment, increment]"
    by simp
  have i0: "fst (increment (NewContext nil)) = None"
    and i1: "fst (increment (snd (increment (NewContext nil)))) = None"
    by (simp_all add: increment_def)
  have h2: "\<forall>j<length [increment, increment].
      fst (([increment, increment] ! j) (after_plugins (take j [increment, increment]) (NewContext nil))) = None"
    using i0 i1 by (simp add: after_plugins_def less_Suc_eq)
  have a: "after_plugins [increment, increment] (NewContext nil) = NewContext (Val 2)"
    by (simp add: after_plugins_def increment_def SetData_def GetData_def NewContext_def)
  show ?thesis
    using all_succeed_in_append_order[OF h1 h2] i0 i1
    by (simp add: a upt_conv_Cons del: upt_Suc)
qed

text \<open>
  C7. Executing a pipeline that \<open>NewPipeline\<close> made and to which \<open>Use\<close> was never
  applied returns no error, whatever the strategy, calls no plugin, and the context
  after the call is the context before it: data, metadata, state and errors are
  unchanged.
\<close>

theorem empty_pipeline_execute:
  "Execute (NewPipeline strategy) ctx = (None, NewPipeline strategy, ctx)
   \<and> Execute_calls (NewPipeline strategy) ctx = []"
  by (simp add: Execute_def Execute_calls_def NewPipeline_def)

text \<open>
  C8. \<open>Get\<close> returns an error exactly when the name is unbound, and then it is the
  not-found error for that name, with no plugin; when the name is bound to \<open>q\<close> it
  returns \<open>q\<close> and no error. In both cases the registry after the call is the registry
  before it.
\<close>

theorem get_fails_iff_unbound:
  "(snd (fst (Registry_Get r name)) \<noteq> None \<longleftrightarrow> Registry_plugins r name = None)
   \<and> (Registry_plugins r name = None \<longrightarrow>
        fst (Registry_Get r name) = (None, Some (Errorf ''plugin %q not found in registry'' name)))
   \<and> (Registry_plugins r name = Some q \<longrightarrow> fst (Registry_Get r name) = (Some q, None))
   \<and> snd (Registry_Get r name) = r"
  by (simp add: Registry_Get_def split: option.splits)

theorem get_fails_iff_unbound_witness:
  "Registry_plugins \<lparr>Registry_plugins = [''a'' \<mapsto> increment]\<rparr> ''missing'' = None
   \<and> Registry_Get \<lparr>Registry_plugins = [''a'' \<mapsto> increment]\<rparr> ''missing''
     = ((None, Some (Errorf ''plugin %q not found in registry'' ''missing'')),
        \<lparr>Registry_plugins = [''a'' \<mapsto> increment]\<rparr>)
   \<and> Registry_plugins \<lparr>Registry_plugins = [''a'' \<mapsto> increment]\<rparr> ''a'' = Some increment
   \<and> Registry_Get \<lparr>Registry_plugins = [''a'' \<mapsto> increment]\<rparr> ''a''
     = ((Some increment, None), \<lparr>Registry_plugins = [''a'' \<mapsto> increment]\<rparr>)"
proof -
  have u: "Registry_plugins \<lparr>Registry_plugins = [''a'' \<mapsto> increment]\<rparr> ''missing'' = None"
    and b: "Registry_plugins \<lparr>Registry_plugins = [''a'' \<mapsto> increment]\<rparr> ''a'' = Some increment"
    by simp_all
  show ?thesis
    using get_fails_iff_unbound[of "\<lparr>Registry_plugins = [''a'' \<mapsto> increment]\<rparr>" "''missing''" increment]
      get_fails_iff_unbound[of "\<lparr>Registry_plugins = [''a'' \<mapsto> increment]\<rparr>" "''a''" increment]
      u b
    by (simp add: prod_eq_iff)
qed

text \<open>
  C9. \<open>Set\<close> of a metadata key followed by \<open>Get\<close> of that key returns the value and
  \<open>true\<close>; \<open>Set\<close> leaves \<open>Data\<close>, the state map, \<open>Errors\<close> and every other metadata
  key as they were. The same holds of \<open>SetState\<close> and \<open>GetState\<close> with the roles of the
  two maps exchanged: neither map is touched by a write to the other.
\<close>

theorem metadata_and_state_independent:
  "Context_Get (Context_Set c k v) k = ((v, True), Context_Set c k v)
   \<and> Data (Context_Set c k v) = Data c
   \<and> state (Context_Set c k v) = state c
   \<and> Errors (Context_Set c k v) = Errors c
   \<and> (\<forall>k'. k' \<noteq> k \<longrightarrow> Metadata (Context_Set c k v) k' = Metadata c k')
   \<and> GetState (SetState c k v) k = ((v, True), SetState c k v)
   \<and> Data (SetState c k v) = Data c
   \<and> Metadata (SetState c k v) = Metadata c
   \<and> Errors (SetState c k v) = Errors c
   \<and> (\<forall>k'. k' \<noteq> k \<longrightarrow> state (SetState c k v) k' = state c k')"
  by (simp add: Context_Get_def Context_Set_def GetState_def SetState_def)

theorem metadata_and_state_independent_witness:
  "''j'' \<noteq> ''k''
   \<and> Context_Get (Context_Set (NewContext nil :: (nat, string) Context) ''k'' (Val 2)) ''k''
     = ((Val 2, True), Context_Set (NewContext nil) ''k'' (Val 2))
   \<and> Metadata (Context_Set (NewContext nil :: (nat, string) Context) ''k'' (Val 2)) ''j''
     = Metadata (NewContext nil :: (nat, string) Context) ''j''
   \<and> GetState (SetState (NewContext nil :: (nat, string) Context) ''k'' (Val 1)) ''k''
     = ((Val 1, True), SetState (NewContext nil) ''k'' (Val 1))
   \<and> state (SetState (NewContext nil :: (nat, string) Context) ''k'' (Val 1)) ''j''
     = state (NewContext nil :: (nat, string) Context) ''j''
   \<and> fst (Context_Get (SetState (NewContext nil :: (nat, string) Context) ''k'' (Val 1)) ''k'')
     = (nil, False)"
proof -
  have d: "''j'' \<noteq> ''k''"
    by simp
  have m: "Metadata (SetState (NewContext nil :: (nat, string) Context) ''k'' (Val 1))
      = Metadata (NewContext nil :: (nat, string) Context)"
    using metadata_and_state_independent[of "NewContext nil :: (nat, string) Context" "''k''" "Val 1"]
    by simp
  have g: "fst (Context_Get (SetState (NewContext nil :: (nat, string) Context) ''k'' (Val 1)) ''k'')
      = (nil, False)"
    unfolding Context_Get_def m by (simp add: NewContext_def)
  show ?thesis
    using metadata_and_state_independent[of "NewContext nil :: (nat, string) Context" "''k''" "Val 2"]
      metadata_and_state_independent[of "NewContext nil :: (nat, string) Context" "''k''" "Val 1"]
      d g
    by simp
qed




end
